theory Spec2Isabelle
  imports Main "HOL-Library.Word"
begin

unbundle bit_operations_syntax

section \<open>Rail YAPF node, cached segment and segment key (yapf\_node\_rail.hpp)\<close>

subsection \<open>Positions\<close>

text \<open>
  \<open>TileIndex\<close> is a 32-bit unsigned integer. \<open>Trackdir\<close> is an enumeration whose
  declaration lies outside this file; it is used here only through its numeric value
  (\<open>(Trackdir)(m_value & 0x0F)\<close>), so it is carried at the width of its integer
  promotion. \<open>PathPos\<close> has the members \<open>tile\<close> and \<open>td\<close> that \<open>Dump\<close> reads.
\<close>

text \<open>
  \<open>uint32\<close> and \<open>int32\<close> are both 32-bit words; \<open>uint\<close> reads the first, \<open>sint\<close>
  (two's complement) the second. A conversion between the two keeps the bit pattern.
\<close>

type_synonym uint32 = "32 word"
type_synonym int32 = "32 word"

type_synonym TileIndex = "32 word"
type_synonym Trackdir = "32 word"

record PathPos =
  tile :: TileIndex
  td :: Trackdir

subsection \<open>CYapfRailSegmentKey\<close>

record CYapfRailSegmentKey =
  m_value :: uint32

text \<open>\<open>Set(const CYapfRailSegmentKey& src)\<close>: \<open>m_value = src.m_value\<close>.\<close>

definition CYapfRailSegmentKey_Set_key ::
  "CYapfRailSegmentKey \<Rightarrow> CYapfRailSegmentKey \<Rightarrow> CYapfRailSegmentKey" where
  "CYapfRailSegmentKey_Set_key src this = this\<lparr>m_value := m_value src\<rparr>"

text \<open>
  \<open>Set(const CYapfNodeKeyTrackDir& node_key)\<close>: \<open>m_value = node_key.CalcHash()\<close>.
  The node key's \<open>CalcHash\<close> returns a signed 32-bit \<open>int\<close>, which the assignment
  converts to \<open>uint32\<close> (same bits). The node key class is declared elsewhere, so its
  hash function is the parameter \<open>calc\<close>.
\<close>

definition CYapfRailSegmentKey_Set_node_key ::
  "('nk \<Rightarrow> int32) \<Rightarrow> 'nk \<Rightarrow> CYapfRailSegmentKey \<Rightarrow> CYapfRailSegmentKey" where
  "CYapfRailSegmentKey_Set_node_key calc node_key this =
     this\<lparr>m_value := calc node_key\<rparr>"

text \<open>
  The converting constructor runs \<open>Set(node_key)\<close> on the new object, whose only
  member is the one that \<open>Set\<close> assigns.
\<close>

definition CYapfRailSegmentKey_from_node_key ::
  "('nk \<Rightarrow> int32) \<Rightarrow> 'nk \<Rightarrow> CYapfRailSegmentKey" where
  "CYapfRailSegmentKey_from_node_key calc node_key =
     CYapfRailSegmentKey_Set_node_key calc node_key \<lparr>m_value = 0\<rparr>"

text \<open>\<open>int32 CalcHash() const { return m_value; }\<close>: the \<open>uint32\<close> read as \<open>int32\<close>.\<close>

definition CYapfRailSegmentKey_CalcHash :: "CYapfRailSegmentKey \<Rightarrow> int32" where
  "CYapfRailSegmentKey_CalcHash this = m_value this"

text \<open>\<open>operator ==\<close>: \<open>m_value == other.m_value\<close>.\<close>

definition CYapfRailSegmentKey_eq :: "CYapfRailSegmentKey \<Rightarrow> CYapfRailSegmentKey \<Rightarrow> bool" where
  "CYapfRailSegmentKey_eq this other \<longleftrightarrow> m_value this = m_value other"

text \<open>
  \<open>Dump\<close> writes the tile \<open>(TileIndex)(m_value >> 4)\<close> and the track direction
  \<open>(Trackdir)(m_value & 0x0F)\<close>; the two values it writes are the functions below.
\<close>

definition CYapfRailSegmentKey_Dump_tile :: "CYapfRailSegmentKey \<Rightarrow> TileIndex" where
  "CYapfRailSegmentKey_Dump_tile this = drop_bit 4 (m_value this)"

definition CYapfRailSegmentKey_Dump_td :: "CYapfRailSegmentKey \<Rightarrow> Trackdir" where
  "CYapfRailSegmentKey_Dump_td this = m_value this AND 0x0F"

text \<open>
  Modelled from the spec: \<open>CYapfNodeKeyTrackDir\<close> and its \<open>CalcHash\<close> are declared in
  another header. The spec gives the hash of the track-direction key mode as the packed
  value \<open>(tile_index << 4) | trackdir\<close>, returned as an \<open>int\<close>.
\<close>

record CYapfNodeKeyTrackDir =
  m_pos :: PathPos

definition CYapfNodeKeyTrackDir_Set :: "PathPos \<Rightarrow> CYapfNodeKeyTrackDir" where
  "CYapfNodeKeyTrackDir_Set pos = \<lparr>m_pos = pos\<rparr>"

definition packed_value :: "PathPos \<Rightarrow> uint32" where
  "packed_value p = push_bit 4 (tile p) OR td p"

definition CYapfNodeKeyTrackDir_CalcHash :: "CYapfNodeKeyTrackDir \<Rightarrow> int32" where
  "CYapfNodeKeyTrackDir_CalcHash this = packed_value (m_pos this)"

text \<open>The segment key of a position in track-direction key mode.\<close>

definition segment_key_of_pos :: "PathPos \<Rightarrow> CYapfRailSegmentKey" where
  "segment_key_of_pos p =
     CYapfRailSegmentKey_from_node_key CYapfNodeKeyTrackDir_CalcHash (CYapfNodeKeyTrackDir_Set p)"

subsection \<open>CYapfRailSegment\<close>

text \<open>
  Modelled from the spec: \<open>EndSegmentReasonBits\<close> and \<open>ESRB_NONE\<close> are declared in
  another header. The spec calls the field a bitset of the reasons the segment
  terminated; \<open>ESRB_NONE\<close> is the bitset with no reason set.
\<close>

type_synonym EndSegmentReasonBits = "32 word"

definition ESRB_NONE :: EndSegmentReasonBits where
  "ESRB_NONE = 0"

text \<open>
  A \<open>CYapfRailSegment *\<close> is a handle into the arena that holds the session's segments:
  \<open>None\<close> is \<open>NULL\<close>, \<open>Some h\<close> points at the segment stored at index \<open>h\<close>.
\<close>

type_synonym segment_ptr = "nat option"

record CYapfRailSegment =
  m_key :: CYapfRailSegmentKey
  m_last :: PathPos
  m_cost :: int32
  m_last_signal :: PathPos
  m_end_segment_reason :: EndSegmentReasonBits
  m_hash_next :: segment_ptr

text \<open>
  The constructor. \<open>m_key(key)\<close> runs the key's copy constructor
  (\<open>m_value(src.m_value)\<close>); \<open>m_last()\<close> and \<open>m_last_signal()\<close> are the default
  \<open>PathPos\<close>, whose constructor is declared elsewhere and is the parameter \<open>pos0\<close>.
\<close>

definition CYapfRailSegment_ctor :: "PathPos \<Rightarrow> CYapfRailSegmentKey \<Rightarrow> CYapfRailSegment" where
  "CYapfRailSegment_ctor pos0 key =
     \<lparr>m_key = \<lparr>m_value = m_value key\<rparr>,
      m_last = pos0,
      m_cost = - 1,
      m_last_signal = pos0,
      m_end_segment_reason = ESRB_NONE,
      m_hash_next = None\<rparr>"

definition GetKey :: "CYapfRailSegment \<Rightarrow> CYapfRailSegmentKey" where
  "GetKey this = m_key this"

definition GetHashNext :: "CYapfRailSegment \<Rightarrow> segment_ptr" where
  "GetHashNext this = m_hash_next this"

definition SetHashNext :: "segment_ptr \<Rightarrow> CYapfRailSegment \<Rightarrow> CYapfRailSegment" where
  "SetHashNext next this = this\<lparr>m_hash_next := next\<rparr>"

subsection \<open>CYapfRailNodeT\<close>

text \<open>
  \<open>SignalType\<close> is declared in another header. This file names two of its enumerators;
  every other enumerator is \<open>SIGTYPE_OTHER\<close> with its numeric value.
\<close>

datatype SignalType = SIGTYPE_NORMAL | SIGTYPE_PBS | SIGTYPE_OTHER nat

text \<open>
  The node. The members of the base class \<open>CYapfNodeT\<close> are declared elsewhere and are
  the field \<open>base\<close> of an arbitrary type. The union \<open>flags_u\<close> is the 32-bit word
  \<open>m_inherited_flags\<close>; the three one-bit members of \<open>flags_s\<close> are its bits 0, 1 and
  2, in declaration order.
\<close>

record 'b CYapfRailNodeT =
  base :: 'b
  m_segment :: segment_ptr
  m_num_signals_passed :: "16 word"
  m_inherited_flags :: uint32
  m_last_red_signal_type :: SignalType
  m_last_signal_type :: SignalType

definition m_targed_seen :: "'b CYapfRailNodeT \<Rightarrow> bool" where
  "m_targed_seen n = bit (m_inherited_flags n) 0"

definition m_choice_seen :: "'b CYapfRailNodeT \<Rightarrow> bool" where
  "m_choice_seen n = bit (m_inherited_flags n) 1"

definition m_last_signal_was_red :: "'b CYapfRailNodeT \<Rightarrow> bool" where
  "m_last_signal_was_red n = bit (m_inherited_flags n) 2"

text \<open>Writing the one-bit member \<open>m_choice_seen\<close> leaves the other bits of the word.\<close>

definition set_m_choice_seen :: "bool \<Rightarrow> 'b CYapfRailNodeT \<Rightarrow> 'b CYapfRailNodeT" where
  "set_m_choice_seen b n =
     n\<lparr>m_inherited_flags :=
         (if b then set_bit 1 (m_inherited_flags n) else unset_bit 1 (m_inherited_flags n))\<rparr>"

text \<open>
  \<open>Set(parent, pos, is_choice)\<close>. \<open>base::Set\<close> is declared elsewhere and is the
  parameter \<open>base_Set\<close>, which rewrites the base members. \<open>parent\<close> is \<open>None\<close> for
  \<open>NULL\<close> and otherwise the node that the pointer refers to, of which \<open>Set\<close> only
  reads members.
\<close>

definition CYapfRailNodeT_Set ::
  "('b CYapfRailNodeT option \<Rightarrow> PathPos \<Rightarrow> bool \<Rightarrow> 'b \<Rightarrow> 'b) \<Rightarrow>
   'b CYapfRailNodeT option \<Rightarrow> PathPos \<Rightarrow> bool \<Rightarrow> 'b CYapfRailNodeT \<Rightarrow> 'b CYapfRailNodeT" where
  "CYapfRailNodeT_Set base_Set parent pos is_choice this =
     (let n0 = this\<lparr>base := base_Set parent pos is_choice (base this)\<rparr>;
          n1 = n0\<lparr>m_segment := None\<rparr>;
          n2 = (case parent of
                  None \<Rightarrow>
                    n1\<lparr>m_num_signals_passed := 0,
                       m_inherited_flags := 0,
                       m_last_red_signal_type := SIGTYPE_NORMAL,
                       m_last_signal_type := SIGTYPE_PBS\<rparr>
                | Some p \<Rightarrow>
                    n1\<lparr>m_num_signals_passed := m_num_signals_passed p,
                       m_inherited_flags := m_inherited_flags p,
                       m_last_red_signal_type := m_last_red_signal_type p,
                       m_last_signal_type := m_last_signal_type p\<rparr>)
      in set_m_choice_seen (m_choice_seen n2 \<or> is_choice) n2)"

text \<open>
  \<open>GetLastPos\<close>: \<open>assert(m_segment != NULL)\<close>, then \<open>m_segment->m_last\<close>. The
  failed assertion is the error \<open>AssertionFailed\<close>. \<open>segs\<close> is the arena the segment
  pointers refer to; a pointer to no segment of the arena has no defined behaviour in
  the source and is the error \<open>InvalidPointer\<close>.
\<close>

datatype error = AssertionFailed | InvalidPointer

definition CYapfRailNodeT_GetLastPos ::
  "CYapfRailSegment list \<Rightarrow> 'b CYapfRailNodeT \<Rightarrow> error + PathPos" where
  "CYapfRailNodeT_GetLastPos segs this =
     (case m_segment this of
        None \<Rightarrow> Inl AssertionFailed
      | Some h \<Rightarrow> if h < length segs then Inr (m_last (segs ! h)) else Inl InvalidPointer)"

text \<open>
  The rail-specific members of a node: everything but the base class.
\<close>

definition rail_state ::
  "'b CYapfRailNodeT \<Rightarrow> segment_ptr \<times> 16 word \<times> uint32 \<times> SignalType \<times> SignalType" where
  "rail_state n =
     (m_segment n, m_num_signals_passed n, m_inherited_flags n,
      m_last_red_signal_type n, m_last_signal_type n)"







subsection \<open>Segment cache\<close>

text \<open>
  Modelled from the spec: the segment cache (hash table and segment storage) is declared
  in other files; this file gives it the key, the constructor and the chain link
  \<open>m_hash_next\<close> with \<open>GetHashNext\<close> and \<open>SetHashNext\<close>. The spec: a hash table keyed
  by \<open>Key.hash()\<close> with explicit collision chaining; \<open>find_or_insert(key)\<close> looks the
  key up and, if absent, allocates a new Segment Result with cost sentinel \<open>-1\<close>, inserts
  it and returns it. The session owns the segments: they live in the arena \<open>m_heap\<close>
  and are never freed before the session ends. \<open>m_slots\<close> maps a bucket to the head of
  its chain. The reduction of a hash to a bucket is the parameter \<open>slot_of\<close>.
\<close>

record SegmentCache =
  m_heap :: "CYapfRailSegment list"
  m_slots :: "nat \<Rightarrow> segment_ptr"

definition empty_cache :: SegmentCache where
  "empty_cache = \<lparr>m_heap = [], m_slots = (\<lambda>_. None)\<rparr>"

text \<open>
  Modelled from the spec: the walk along a collision chain, by \<open>GetHashNext\<close>, until a
  segment with the key is found or the chain ends. The first argument bounds the number
  of links followed; \<open>Find\<close> gives it the number of segments of the arena.
\<close>

fun find_chain ::
  "nat \<Rightarrow> CYapfRailSegment list \<Rightarrow> segment_ptr \<Rightarrow> CYapfRailSegmentKey \<Rightarrow> segment_ptr" where
  "find_chain 0 segs p key = None"
| "find_chain (Suc n) segs None key = None"
| "find_chain (Suc n) segs (Some h) key =
     (if h < length segs
      then (if CYapfRailSegmentKey_eq (GetKey (segs ! h)) key then Some h
            else find_chain n segs (GetHashNext (segs ! h)) key)
      else None)"

definition Find :: "(int32 \<Rightarrow> nat) \<Rightarrow> SegmentCache \<Rightarrow> CYapfRailSegmentKey \<Rightarrow> segment_ptr" where
  "Find slot_of c key =
     find_chain (length (m_heap c)) (m_heap c)
       (m_slots c (slot_of (CYapfRailSegmentKey_CalcHash key))) key"

text \<open>
  Modelled from the spec: \<open>find_or_insert\<close>. A new segment is constructed from the key,
  linked in front of its bucket's chain and stored at the end of the arena.
\<close>

definition find_or_insert ::
  "(int32 \<Rightarrow> nat) \<Rightarrow> PathPos \<Rightarrow> SegmentCache \<Rightarrow> CYapfRailSegmentKey \<Rightarrow> nat \<times> SegmentCache" where
  "find_or_insert slot_of pos0 c key =
     (case Find slot_of c key of
        Some h \<Rightarrow> (h, c)
      | None \<Rightarrow>
          (let slot = slot_of (CYapfRailSegmentKey_CalcHash key);
               h = length (m_heap c);
               item = SetHashNext (m_slots c slot) (CYapfRailSegment_ctor pos0 key)
           in (h, c\<lparr>m_heap := m_heap c @ [item], m_slots := (m_slots c)(slot := Some h)\<rparr>)))"

text \<open>
  Modelled from the spec: segment resolution. The segment of the key is fetched or
  created; if its cost is still the sentinel, the result of the walk over the track
  (made by code outside this file, here the argument \<open>r\<close>) is written into it in place.
\<close>

record walk_result =
  w_last :: PathPos
  w_cost :: int32
  w_last_signal :: PathPos
  w_end_segment_reason :: EndSegmentReasonBits

definition fill_in :: "walk_result \<Rightarrow> CYapfRailSegment \<Rightarrow> CYapfRailSegment" where
  "fill_in r seg =
     seg\<lparr>m_last := w_last r,
         m_cost := w_cost r,
         m_last_signal := w_last_signal r,
         m_end_segment_reason := w_end_segment_reason r\<rparr>"

definition resolve ::
  "(int32 \<Rightarrow> nat) \<Rightarrow> PathPos \<Rightarrow> SegmentCache \<Rightarrow> CYapfRailSegmentKey \<Rightarrow> walk_result \<Rightarrow>
   nat \<times> SegmentCache" where
  "resolve slot_of pos0 c key r =
     (case find_or_insert slot_of pos0 c key of
        (h, c1) \<Rightarrow>
          if m_cost (m_heap c1 ! h) = - 1
          then (h, c1\<lparr>m_heap := (m_heap c1)[h := fill_in r (m_heap c1 ! h)]\<rparr>)
          else (h, c1))"

text \<open>
  Modelled from the spec: the operations of a session on its cache, and a session as the
  sequence of its operations.
\<close>

datatype session_op =
  OpFindOrInsert CYapfRailSegmentKey
| OpResolve CYapfRailSegmentKey walk_result

fun session_step ::
  "(int32 \<Rightarrow> nat) \<Rightarrow> PathPos \<Rightarrow> SegmentCache \<Rightarrow> session_op \<Rightarrow> SegmentCache" where
  "session_step slot_of pos0 c (OpFindOrInsert key) = snd (find_or_insert slot_of pos0 c key)"
| "session_step slot_of pos0 c (OpResolve key r) = snd (resolve slot_of pos0 c key r)"

definition session_run ::
  "(int32 \<Rightarrow> nat) \<Rightarrow> PathPos \<Rightarrow> SegmentCache \<Rightarrow> session_op list \<Rightarrow> SegmentCache" where
  "session_run slot_of pos0 c ops = foldl (session_step slot_of pos0) c ops"

text \<open>
  The invariant of the cache: looking up the key of any stored segment finds that
  segment.
\<close>

definition cache_inv :: "(int32 \<Rightarrow> nat) \<Rightarrow> SegmentCache \<Rightarrow> bool" where
  "cache_inv slot_of c =
     list_all (\<lambda>h. Find slot_of c (GetKey (m_heap c ! h)) = Some h) [0..<length (m_heap c)]"

section \<open>Properties\<close>

subsection \<open>The packed key value\<close>

lemma take_bit_4_td: "d < 16 \<Longrightarrow> take_bit 4 (d::32 word) = d"
  using less_mask_eq [of d 4] by (simp add: take_bit_eq_mask)

lemma take_bit_28_tile: "t < 2 ^ 28 \<Longrightarrow> take_bit 28 (t::32 word) = t"
  using less_mask_eq [of t 28] by (simp add: take_bit_eq_mask)

lemma packed_and_15: 
  assumes "d < 16" shows "(push_bit 4 (t::32 word) OR d) AND 0x0F = d"
proof -
  have "(15 :: 32 word) = mask 4"
    by (simp add: mask_eq_exp_minus_1)
  then have "(push_bit 4 t OR d) AND 0x0F = take_bit 4 (push_bit 4 t OR d)"
    by (simp only: take_bit_eq_mask)
  also have "\<dots> = take_bit 4 d"
    by (simp add: take_bit_push_bit)
  finally show ?thesis using assms by (simp add: take_bit_4_td)
qed

lemma drop_bit_4_td: assumes "d < 16" shows "drop_bit 4 (d::32 word) = 0"
proof -
  have "drop_bit 4 (take_bit 4 d) = 0" by (simp add: drop_bit_take_bit)
  then show ?thesis using assms by (simp add: take_bit_4_td)
qed

lemma drop_push_tile: assumes "t < 2 ^ 28" shows "drop_bit 4 (push_bit 4 (t::32 word)) = t"
proof -
  have "drop_bit 4 (push_bit 4 (take_bit 28 t)) = take_bit 28 t"
    by (rule bit_eqI) (auto simp add: bit_simps)
  then show ?thesis using assms by (simp add: take_bit_28_tile)
qed

lemma packed_as_sum: assumes "d < 16" shows "push_bit 4 (t::32 word) OR d = push_bit 4 t + d"
proof -
  have "push_bit 4 t + take_bit 4 d = push_bit 4 t OR take_bit 4 d"
    by (rule disjunctive_add_eq_or) (rule bit_eqI, auto simp add: bit_simps)
  then show ?thesis using assms by (simp add: take_bit_4_td)
qed

lemma packed_sint:
  assumes "t < 2 ^ 27" "d < 16"
  shows "sint (push_bit 4 (t::32 word) OR d) = uint t * 16 + uint d"
proof -
  have ut: "uint t < 2 ^ 27" using assms(1) by (simp add: word_less_def)
  have ud: "uint d < 16" using assms(2) by (simp add: word_less_def)
  have "uint (push_bit 4 t + d) = (uint t * 16 + uint d) mod 2 ^ 32"
    by (simp add: push_bit_eq_mult uint_word_ariths mod_simps)
  then have u: "uint (push_bit 4 t + d) = uint t * 16 + uint d"
    using ut ud by simp
  have nn: "0 \<le> uint t * 16 + uint d" by simp
  have lo: "- (2 ^ 31) \<le> uint t * 16 + uint d"
    by (rule order_trans [OF _ nn]) simp
  have hi: "uint t * 16 + uint d < 2 ^ 31" using ut ud by simp
  have "signed_take_bit 31 (uint t * 16 + uint d) = uint t * 16 + uint d"
    using lo hi by (rule signed_take_bit_int_eq_self)
  then have "sint (push_bit 4 t + d) = uint (push_bit 4 t + d)"
    by (simp add: sint_uint u)
  then show ?thesis using assms(2) by (simp add: packed_as_sum u)
qed

lemma segment_key_of_pos_value: "m_value (segment_key_of_pos p) = push_bit 4 (tile p) OR td p"
  by (simp add: segment_key_of_pos_def CYapfRailSegmentKey_from_node_key_def
      CYapfRailSegmentKey_Set_node_key_def CYapfNodeKeyTrackDir_CalcHash_def
      CYapfNodeKeyTrackDir_Set_def packed_value_def)

text \<open>
  C1. For every position in track-direction key mode, the hash of the segment key built
  from the position is the packed value \<open>(tile << 4) | trackdir\<close>; for every segment
  key, \<open>CalcHash\<close> returns its packed 32-bit \<open>m_value\<close>, and whatever hash the node
  key supplies comes back unchanged. For a track direction below 16 the value that
  \<open>Dump\<close> writes as \<open>m_value & 0x0F\<close> is the track direction; for a tile index
  below \<open>2^28\<close> as well, the value it writes as \<open>m_value >> 4\<close> is the tile; for a tile
  index below \<open>2^27\<close> the hash, read as the signed \<open>int32\<close> it is returned as, is
  the number \<open>16 * tile + trackdir\<close>.
\<close>

theorem segment_key_hash_is_packed_value:
  "CYapfRailSegmentKey_CalcHash (CYapfRailSegmentKey_from_node_key calc nk) = calc nk
   \<and> CYapfRailSegmentKey_CalcHash (segment_key_of_pos p) = push_bit 4 (tile p) OR td p
   \<and> CYapfRailSegmentKey_CalcHash k = m_value k
   \<and> (td p < 16 \<longrightarrow> CYapfRailSegmentKey_Dump_td (segment_key_of_pos p) = td p)
   \<and> (tile p < 2 ^ 28 \<and> td p < 16 \<longrightarrow>
        CYapfRailSegmentKey_Dump_tile (segment_key_of_pos p) = tile p)
   \<and> (tile p < 2 ^ 27 \<and> td p < 16 \<longrightarrow>
        sint (CYapfRailSegmentKey_CalcHash (segment_key_of_pos p))
          = uint (tile p) * 16 + uint (td p))"
  by (simp add: CYapfRailSegmentKey_CalcHash_def segment_key_of_pos_value
      CYapfRailSegmentKey_Dump_td_def CYapfRailSegmentKey_Dump_tile_def
      packed_and_15 drop_push_tile drop_bit_4_td packed_sint
      CYapfRailSegmentKey_from_node_key_def CYapfRailSegmentKey_Set_node_key_def)

theorem segment_key_hash_is_packed_value_witness:
  "CYapfRailSegmentKey_CalcHash (segment_key_of_pos \<lparr>tile = 5, td = 3\<rparr>) = 83
   \<and> CYapfRailSegmentKey_Dump_td (segment_key_of_pos \<lparr>tile = 5, td = 3\<rparr>) = 3
   \<and> CYapfRailSegmentKey_Dump_tile (segment_key_of_pos \<lparr>tile = 5, td = 3\<rparr>) = 5
   \<and> sint (CYapfRailSegmentKey_CalcHash (segment_key_of_pos \<lparr>tile = 5, td = 3\<rparr>)) = 83"
  using segment_key_hash_is_packed_value
    [of "\<lambda>_::unit. 0" "()" "\<lparr>tile = 5, td = 3\<rparr>" "\<lparr>m_value = 0\<rparr>"]
  by simp

text \<open>
  C9. Equality of segment keys is equality of the packed value, and two segment keys
  are equal if and only if their \<open>CalcHash\<close> values are equal, as words and as the
  signed numbers they are returned as: the hash is injective on keys.
\<close>

theorem segment_key_eq_iff_hash_eq:
  "(CYapfRailSegmentKey_eq k1 k2 \<longleftrightarrow> k1 = k2)
   \<and> (CYapfRailSegmentKey_eq k1 k2 \<longleftrightarrow>
        CYapfRailSegmentKey_CalcHash k1 = CYapfRailSegmentKey_CalcHash k2)
   \<and> (CYapfRailSegmentKey_eq k1 k2 \<longleftrightarrow>
        sint (CYapfRailSegmentKey_CalcHash k1) = sint (CYapfRailSegmentKey_CalcHash k2))"
proof -
  have "m_value k1 = m_value k2 \<longleftrightarrow> k1 = k2"
    by (cases k1, cases k2) simp
  moreover have "m_value k1 = m_value k2 \<longleftrightarrow> sint (m_value k1) = sint (m_value k2)"
    by (auto intro: signed_word_eqI)
  ultimately show ?thesis
    by (simp add: CYapfRailSegmentKey_eq_def CYapfRailSegmentKey_CalcHash_def)
qed

subsection \<open>The segment constructor\<close>

text \<open>
  C7. For every key, a freshly constructed segment is in the "not yet computed" state:
  its cost is the sentinel \<open>-1\<close>, its termination-reason bitset is \<open>ESRB_NONE\<close> with
  no bit set, its hash-chain next pointer is \<open>NULL\<close>, and it carries the key.
\<close>

theorem fresh_segment_not_yet_computed:
  "m_cost (CYapfRailSegment_ctor pos0 key) = - 1
   \<and> sint (m_cost (CYapfRailSegment_ctor pos0 key)) = - 1
   \<and> m_end_segment_reason (CYapfRailSegment_ctor pos0 key) = ESRB_NONE
   \<and> (\<forall>i. \<not> bit (m_end_segment_reason (CYapfRailSegment_ctor pos0 key)) i)
   \<and> GetHashNext (CYapfRailSegment_ctor pos0 key) = None
   \<and> GetKey (CYapfRailSegment_ctor pos0 key) = key"
  by (simp add: CYapfRailSegment_ctor_def ESRB_NONE_def GetHashNext_def GetKey_def)

subsection \<open>Node initialisation\<close>

lemma Set_m_segment:
  "m_segment (CYapfRailNodeT_Set bs parent pos is_choice this) = None"
  by (simp add: CYapfRailNodeT_Set_def set_m_choice_seen_def Let_def split: option.split)

lemma Set_root_fields:
  "m_num_signals_passed (CYapfRailNodeT_Set bs None pos is_choice this) = 0"
  "m_inherited_flags (CYapfRailNodeT_Set bs None pos is_choice this) = (if is_choice then 2 else 0)"
  "m_last_red_signal_type (CYapfRailNodeT_Set bs None pos is_choice this) = SIGTYPE_NORMAL"
  "m_last_signal_type (CYapfRailNodeT_Set bs None pos is_choice this) = SIGTYPE_PBS"
  by (simp_all add: CYapfRailNodeT_Set_def set_m_choice_seen_def m_choice_seen_def Let_def
      set_bit_eq_or unset_bit_eq_and_not)

lemma Set_child_fields:
  "m_num_signals_passed (CYapfRailNodeT_Set bs (Some p) pos is_choice this) = m_num_signals_passed p"
  "m_inherited_flags (CYapfRailNodeT_Set bs (Some p) pos is_choice this) =
     (if is_choice then set_bit 1 (m_inherited_flags p) else m_inherited_flags p)"
  "m_last_red_signal_type (CYapfRailNodeT_Set bs (Some p) pos is_choice this) = m_last_red_signal_type p"
  "m_last_signal_type (CYapfRailNodeT_Set bs (Some p) pos is_choice this) = m_last_signal_type p"
  by (simp_all add: CYapfRailNodeT_Set_def set_m_choice_seen_def m_choice_seen_def Let_def
      set_bit_eq_idem_iff unset_bit_eq_idem_iff)

lemma Set_child_flags_superset:
  "m_inherited_flags p AND m_inherited_flags (CYapfRailNodeT_Set bs (Some p) pos is_choice this)
     = m_inherited_flags p"
  by (rule bit_eqI) (auto simp add: Set_child_fields bit_simps)











text \<open>
  C3. For every \<open>Set(parent, pos, is_choice)\<close> with \<open>parent == NULL\<close>, whatever the
  position and the prior contents of the node: the root node has zero signals passed,
  its flags word is zero but for the choice bit, which is \<open>is_choice\<close> (so
  \<open>targed_seen\<close> and \<open>last_signal_was_red\<close> are false and \<open>choice_seen\<close> was false
  before the OR), its last red signal type is \<open>SIGTYPE_NORMAL\<close> and its last signal
  type is \<open>SIGTYPE_PBS\<close>.
\<close>

theorem root_node_defaults:
  "m_num_signals_passed (CYapfRailNodeT_Set bs None pos is_choice this) = 0
   \<and> m_inherited_flags (CYapfRailNodeT_Set bs None pos is_choice this) = (if is_choice then 2 else 0)
   \<and> \<not> m_targed_seen (CYapfRailNodeT_Set bs None pos is_choice this)
   \<and> (m_choice_seen (CYapfRailNodeT_Set bs None pos is_choice this) \<longleftrightarrow> is_choice)
   \<and> \<not> m_last_signal_was_red (CYapfRailNodeT_Set bs None pos is_choice this)
   \<and> m_last_red_signal_type (CYapfRailNodeT_Set bs None pos is_choice this) = SIGTYPE_NORMAL
   \<and> m_last_signal_type (CYapfRailNodeT_Set bs None pos is_choice this) = SIGTYPE_PBS"
  by (simp add: Set_root_fields m_targed_seen_def m_choice_seen_def m_last_signal_was_red_def)

text \<open>
  C4. For every \<open>Set(parent, pos, is_choice)\<close> with \<open>parent != NULL\<close>, the child has
  the parent's number of signals passed, last red signal type and last signal type; its
  flags word is the parent's word with the choice bit set when \<open>is_choice\<close> holds and
  the parent's word as it is otherwise; so its \<open>choice_seen\<close> is the parent's
  \<open>choice_seen\<close> OR \<open>is_choice\<close>, and the other two flags are the parent's.
\<close>

theorem child_copies_parent_state:
  "m_num_signals_passed (CYapfRailNodeT_Set bs (Some p) pos is_choice this) = m_num_signals_passed p
   \<and> m_inherited_flags (CYapfRailNodeT_Set bs (Some p) pos is_choice this)
       = (if is_choice then set_bit 1 (m_inherited_flags p) else m_inherited_flags p)
   \<and> m_last_red_signal_type (CYapfRailNodeT_Set bs (Some p) pos is_choice this) = m_last_red_signal_type p
   \<and> m_last_signal_type (CYapfRailNodeT_Set bs (Some p) pos is_choice this) = m_last_signal_type p
   \<and> (m_choice_seen (CYapfRailNodeT_Set bs (Some p) pos is_choice this)
        \<longleftrightarrow> m_choice_seen p \<or> is_choice)
   \<and> (m_targed_seen (CYapfRailNodeT_Set bs (Some p) pos is_choice this) \<longleftrightarrow> m_targed_seen p)
   \<and> (m_last_signal_was_red (CYapfRailNodeT_Set bs (Some p) pos is_choice this)
        \<longleftrightarrow> m_last_signal_was_red p)"
  by (auto simp add: Set_child_fields m_targed_seen_def m_choice_seen_def m_last_signal_was_red_def
      bit_simps)




text \<open>
  C6. After every \<open>Set\<close> the segment pointer of the node is \<open>NULL\<close>, so \<open>GetLastPos\<close>
  on it fails its assertion. \<open>GetLastPos\<close> on any node with a \<open>NULL\<close> segment pointer
  fails the assertion; on a node with a segment pointer it does not, and when the
  pointer refers to a segment it returns that segment's last position.
\<close>

theorem GetLastPos_needs_resolved_segment:
  "m_segment (CYapfRailNodeT_Set bs parent pos is_choice this) = None
   \<and> CYapfRailNodeT_GetLastPos segs (CYapfRailNodeT_Set bs parent pos is_choice this)
       = Inl AssertionFailed
   \<and> (m_segment n = None \<longrightarrow> CYapfRailNodeT_GetLastPos segs n = Inl AssertionFailed)
   \<and> (m_segment n \<noteq> None \<longrightarrow> CYapfRailNodeT_GetLastPos segs n \<noteq> Inl AssertionFailed)
   \<and> (m_segment n = Some h \<and> h < length segs \<longrightarrow>
        CYapfRailNodeT_GetLastPos segs n = Inr (m_last (segs ! h)))"
  by (auto simp add: CYapfRailNodeT_GetLastPos_def Set_m_segment split: if_splits)

theorem GetLastPos_needs_resolved_segment_witness:
  "CYapfRailNodeT_GetLastPos
     [CYapfRailSegment_ctor \<lparr>tile = 7, td = 2\<rparr> \<lparr>m_value = 9\<rparr>]
     \<lparr>base = (), m_segment = None, m_num_signals_passed = 0, m_inherited_flags = 0,
       m_last_red_signal_type = SIGTYPE_NORMAL, m_last_signal_type = SIGTYPE_PBS\<rparr>
     = Inl AssertionFailed
   \<and> CYapfRailNodeT_GetLastPos
     [CYapfRailSegment_ctor \<lparr>tile = 7, td = 2\<rparr> \<lparr>m_value = 9\<rparr>]
     \<lparr>base = (), m_segment = Some 0, m_num_signals_passed = 0, m_inherited_flags = 0,
       m_last_red_signal_type = SIGTYPE_NORMAL, m_last_signal_type = SIGTYPE_PBS\<rparr>
     = Inr \<lparr>tile = 7, td = 2\<rparr>"
  using
    GetLastPos_needs_resolved_segment
      [of "\<lambda>_ _ _ b. b" None "\<lparr>tile = 1, td = 0\<rparr>" False
          "\<lparr>base = (), m_segment = None, m_num_signals_passed = 0, m_inherited_flags = 0,
            m_last_red_signal_type = SIGTYPE_NORMAL, m_last_signal_type = SIGTYPE_PBS\<rparr>"
          "[CYapfRailSegment_ctor \<lparr>tile = 7, td = 2\<rparr> \<lparr>m_value = 9\<rparr>]"
          "\<lparr>base = (), m_segment = None, m_num_signals_passed = 0, m_inherited_flags = 0,
            m_last_red_signal_type = SIGTYPE_NORMAL, m_last_signal_type = SIGTYPE_PBS\<rparr>" 0]
    GetLastPos_needs_resolved_segment
      [of "\<lambda>_ _ _ b. b" None "\<lparr>tile = 1, td = 0\<rparr>" False
          "\<lparr>base = (), m_segment = None, m_num_signals_passed = 0, m_inherited_flags = 0,
            m_last_red_signal_type = SIGTYPE_NORMAL, m_last_signal_type = SIGTYPE_PBS\<rparr>"
          "[CYapfRailSegment_ctor \<lparr>tile = 7, td = 2\<rparr> \<lparr>m_value = 9\<rparr>]"
          "\<lparr>base = (), m_segment = Some 0, m_num_signals_passed = 0, m_inherited_flags = 0,
            m_last_red_signal_type = SIGTYPE_NORMAL, m_last_signal_type = SIGTYPE_PBS\<rparr>" 0]
  by (simp add: CYapfRailSegment_ctor_def)

text \<open>
  C10. \<open>Set(parent, pos, is_choice)\<close> overwrites every rail-specific member of the
  node: two calls with the same parent, position and choice flag give the same segment
  pointer, number of signals passed, flags word, last red signal type and last signal
  type, whatever the nodes held before and whatever the base initialiser does.
\<close>

theorem Set_is_deterministic:
  "rail_state (CYapfRailNodeT_Set bs1 parent pos is_choice this1)
     = rail_state (CYapfRailNodeT_Set bs2 parent pos is_choice this2)"
  by (cases parent) (simp_all add: rail_state_def Set_m_segment Set_root_fields Set_child_fields)

subsection \<open>The segment cache\<close>

lemma key_eq_iff: "CYapfRailSegmentKey_eq k1 k2 \<longleftrightarrow> k1 = k2"
  by (cases k1, cases k2) (simp add: CYapfRailSegmentKey_eq_def)

lemma find_chain_Some:
  "find_chain n segs p key = Some h \<Longrightarrow> h < length segs \<and> GetKey (segs ! h) = key"
  by (induction n segs p key rule: find_chain.induct) (auto simp add: key_eq_iff split: if_splits)

lemma find_chain_extend:
  "find_chain n segs p key = Some h \<Longrightarrow> find_chain (n + m) (segs @ ext) p key = Some h"
  by (induction n segs p key rule: find_chain.induct) (auto simp add: nth_append split: if_splits)

lemma find_chain_same_links:
  assumes "length segs' = length segs"
    and "\<And>i. i < length segs \<Longrightarrow>
           GetKey (segs' ! i) = GetKey (segs ! i) \<and> GetHashNext (segs' ! i) = GetHashNext (segs ! i)"
  shows "find_chain n segs' p key = find_chain n segs p key"
  using assms
  by (induction n segs p key rule: find_chain.induct) auto

lemma ctor_key: "GetKey (SetHashNext nx (CYapfRailSegment_ctor pos0 key)) = key"
  by (cases key) (simp add: GetKey_def SetHashNext_def CYapfRailSegment_ctor_def)

lemma ctor_next: "GetHashNext (SetHashNext nx (CYapfRailSegment_ctor pos0 key)) = nx"
  by (simp add: GetHashNext_def SetHashNext_def CYapfRailSegment_ctor_def)

lemma find_or_insert_hit:
  "Find slot_of c key = Some h \<Longrightarrow> find_or_insert slot_of pos0 c key = (h, c)"
  by (simp add: find_or_insert_def)

lemma find_or_insert_miss:
  "Find slot_of c key = None \<Longrightarrow>
     find_or_insert slot_of pos0 c key =
       (length (m_heap c),
        c\<lparr>m_heap := m_heap c @
             [SetHashNext (m_slots c (slot_of (CYapfRailSegmentKey_CalcHash key)))
                (CYapfRailSegment_ctor pos0 key)],
          m_slots := (m_slots c)(slot_of (CYapfRailSegmentKey_CalcHash key) := Some (length (m_heap c)))\<rparr>)"
  by (simp add: find_or_insert_def Let_def)

lemma Find_after_find_or_insert:
  "Find slot_of (snd (find_or_insert slot_of pos0 c key)) key
     = Some (fst (find_or_insert slot_of pos0 c key))"
proof (cases "Find slot_of c key")
  case None
  show ?thesis
    by (simp add: find_or_insert_miss [OF None] Find_def ctor_key key_eq_iff)
next
  case (Some h)
  then show ?thesis by (simp add: find_or_insert_hit)
qed

lemma Find_kept_by_find_or_insert:
  assumes "Find slot_of c key = Some h"
  shows "Find slot_of (snd (find_or_insert slot_of pos0 c key')) key = Some h"
proof (cases "Find slot_of c key'")
  case (Some h')
  then show ?thesis using assms by (simp add: find_or_insert_hit)
next
  case None
  let ?item = "SetHashNext (m_slots c (slot_of (CYapfRailSegmentKey_CalcHash key')))
                 (CYapfRailSegment_ctor pos0 key')"
  let ?n = "length (m_heap c)"
  have ne: "key' \<noteq> key" using assms None by auto
  have old: "find_chain ?n (m_heap c) (m_slots c (slot_of (CYapfRailSegmentKey_CalcHash key))) key = Some h"
    using assms by (simp add: Find_def)
  have ext0: "find_chain ?n (m_heap c @ [?item])
               (m_slots c (slot_of (CYapfRailSegmentKey_CalcHash key))) key = Some h"
    using find_chain_extend [OF old, of 0 "[?item]"] by simp
  have ext1: "find_chain (Suc ?n) (m_heap c @ [?item])
               (m_slots c (slot_of (CYapfRailSegmentKey_CalcHash key))) key = Some h"
    using find_chain_extend [OF old, of 1 "[?item]"] by simp
  show ?thesis
  proof (cases "slot_of (CYapfRailSegmentKey_CalcHash key) = slot_of (CYapfRailSegmentKey_CalcHash key')")
    case True
    then show ?thesis
      using ext0 ne
      by (simp add: find_or_insert_miss [OF None] Find_def ctor_key ctor_next key_eq_iff)
  next
    case False
    then show ?thesis
      using ext1
      by (simp add: find_or_insert_miss [OF None] Find_def)
  qed
qed

lemma find_or_insert_valid:
  "fst (find_or_insert slot_of pos0 c key) < length (m_heap (snd (find_or_insert slot_of pos0 c key)))
   \<and> GetKey (m_heap (snd (find_or_insert slot_of pos0 c key)) ! fst (find_or_insert slot_of pos0 c key)) = key"
  using Find_after_find_or_insert [of slot_of pos0 c key]
  unfolding Find_def by (rule find_chain_Some)

lemma find_or_insert_heap:
  "\<exists>ext. m_heap (snd (find_or_insert slot_of pos0 c key)) = m_heap c @ ext"
  by (cases "Find slot_of c key") (simp_all add: find_or_insert_hit find_or_insert_miss)

lemma find_or_insert_new_handle:
  "m_heap (snd (find_or_insert slot_of pos0 c key)) = m_heap c
   \<or> (fst (find_or_insert slot_of pos0 c key) = length (m_heap c)
       \<and> length (m_heap (snd (find_or_insert slot_of pos0 c key))) = Suc (length (m_heap c)))"
  by (cases "Find slot_of c key") (simp_all add: find_or_insert_hit find_or_insert_miss)

lemma fill_in_links:
  "GetKey (fill_in r seg) = GetKey seg" "GetHashNext (fill_in r seg) = GetHashNext seg"
  by (simp_all add: fill_in_def GetKey_def GetHashNext_def)

lemma resolve_fst:
  "fst (resolve slot_of pos0 c key r) = fst (find_or_insert slot_of pos0 c key)"
  by (simp add: resolve_def split: prod.split)

lemma resolve_cases:
  "snd (resolve slot_of pos0 c key r) = snd (find_or_insert slot_of pos0 c key)
   \<or> (m_cost (m_heap (snd (find_or_insert slot_of pos0 c key)) ! fst (find_or_insert slot_of pos0 c key)) = - 1
      \<and> snd (resolve slot_of pos0 c key r) =
          (snd (find_or_insert slot_of pos0 c key))
            \<lparr>m_heap := (m_heap (snd (find_or_insert slot_of pos0 c key)))
               [fst (find_or_insert slot_of pos0 c key) :=
                  fill_in r (m_heap (snd (find_or_insert slot_of pos0 c key)) ! fst (find_or_insert slot_of pos0 c key))]\<rparr>)"
  by (simp add: resolve_def split: prod.split)

lemma Find_update_fill_in:
  "Find slot_of (c\<lparr>m_heap := (m_heap c)[h := fill_in r (m_heap c ! h)]\<rparr>) key = Find slot_of c key"
proof -
  have "find_chain n ((m_heap c)[h := fill_in r (m_heap c ! h)]) p key = find_chain n (m_heap c) p key"
    for n p
  proof (rule find_chain_same_links)
    show "length ((m_heap c)[h := fill_in r (m_heap c ! h)]) = length (m_heap c)"
      by simp
  next
    fix i
    assume "i < length (m_heap c)"
    then show "GetKey ((m_heap c)[h := fill_in r (m_heap c ! h)] ! i) = GetKey (m_heap c ! i)
      \<and> GetHashNext ((m_heap c)[h := fill_in r (m_heap c ! h)] ! i) = GetHashNext (m_heap c ! i)"
      by (cases "i = h") (simp_all add: fill_in_links)
  qed
  then show ?thesis by (simp add: Find_def)
qed

lemma Find_kept_by_resolve:
  assumes "Find slot_of c key = Some h"
  shows "Find slot_of (snd (resolve slot_of pos0 c key' r)) key = Some h"
  using resolve_cases [of slot_of pos0 c key' r]
    Find_kept_by_find_or_insert [OF assms, of pos0 key']
  by (auto simp add: Find_update_fill_in)

lemma Find_kept_by_step:
  "Find slot_of c key = Some h \<Longrightarrow> Find slot_of (session_step slot_of pos0 c op) key = Some h"
  by (cases op) (simp_all add: Find_kept_by_find_or_insert Find_kept_by_resolve)

lemma Find_kept_by_run:
  "Find slot_of c key = Some h \<Longrightarrow> Find slot_of (session_run slot_of pos0 c ops) key = Some h"
  unfolding session_run_def
  by (induction ops arbitrary: c) (simp_all add: Find_kept_by_step)

lemma cache_inv_iff:
  "cache_inv slot_of c \<longleftrightarrow>
     (\<forall>h<length (m_heap c). Find slot_of c (GetKey (m_heap c ! h)) = Some h)"
  by (auto simp add: cache_inv_def list_all_iff)

lemma cache_inv_empty: "cache_inv slot_of empty_cache"
  by (simp add: cache_inv_def empty_cache_def)

lemma cache_inv_find_or_insert:
  assumes "cache_inv slot_of c"
  shows "cache_inv slot_of (snd (find_or_insert slot_of pos0 c key))"
  unfolding cache_inv_iff
proof (intro allI impI)
  fix h
  let ?c' = "snd (find_or_insert slot_of pos0 c key)"
  assume h: "h < length (m_heap ?c')"
  obtain ext where ext: "m_heap ?c' = m_heap c @ ext"
    using find_or_insert_heap by blast
  show "Find slot_of ?c' (GetKey (m_heap ?c' ! h)) = Some h"
  proof (cases "h < length (m_heap c)")
    case True
    then have "Find slot_of c (GetKey (m_heap c ! h)) = Some h"
      using assms by (simp add: cache_inv_iff)
    then have "Find slot_of ?c' (GetKey (m_heap c ! h)) = Some h"
      by (rule Find_kept_by_find_or_insert)
    then show ?thesis using True by (simp add: ext nth_append)
  next
    case False
    have "h = fst (find_or_insert slot_of pos0 c key)"
      using False h find_or_insert_new_handle [of slot_of pos0 c key]
      by auto
    then show ?thesis
      using find_or_insert_valid [of slot_of pos0 c key]
        Find_after_find_or_insert [of slot_of pos0 c key] by simp
  qed
qed

lemma cache_inv_resolve:
  assumes "cache_inv slot_of c"
  shows "cache_inv slot_of (snd (resolve slot_of pos0 c key r))"
proof -
  let ?c1 = "snd (find_or_insert slot_of pos0 c key)"
  have inv1: "cache_inv slot_of ?c1"
    using assms by (rule cache_inv_find_or_insert)
  have "cache_inv slot_of (?c1\<lparr>m_heap := (m_heap ?c1)[h := fill_in r (m_heap ?c1 ! h)]\<rparr>)" for h
    unfolding cache_inv_iff
  proof (intro allI impI)
    fix i
    assume "i < length (m_heap (?c1\<lparr>m_heap := (m_heap ?c1)[h := fill_in r (m_heap ?c1 ! h)]\<rparr>))"
    then have i: "i < length (m_heap ?c1)" by simp
    then have k: "GetKey ((m_heap ?c1)[h := fill_in r (m_heap ?c1 ! h)] ! i) = GetKey (m_heap ?c1 ! i)"
      by (cases "i = h") (simp_all add: fill_in_links)
    show "Find slot_of (?c1\<lparr>m_heap := (m_heap ?c1)[h := fill_in r (m_heap ?c1 ! h)]\<rparr>)
            (GetKey (m_heap (?c1\<lparr>m_heap := (m_heap ?c1)[h := fill_in r (m_heap ?c1 ! h)]\<rparr>) ! i)) = Some i"
      using inv1 i by (simp add: Find_update_fill_in k cache_inv_iff)
  qed
  then show ?thesis
    using resolve_cases [of slot_of pos0 c key r] inv1 by auto
qed

lemma cache_inv_step:
  "cache_inv slot_of c \<Longrightarrow> cache_inv slot_of (session_step slot_of pos0 c op)"
  by (cases op) (simp_all add: cache_inv_find_or_insert cache_inv_resolve)

lemma cache_inv_run:
  "cache_inv slot_of c \<Longrightarrow> cache_inv slot_of (session_run slot_of pos0 c ops)"
  unfolding session_run_def
  by (induction ops arbitrary: c) (simp_all add: cache_inv_step)

lemma cache_inv_distinct:
  assumes "cache_inv slot_of c"
  shows "distinct (map GetKey (m_heap c))"
  unfolding distinct_conv_nth
proof (intro allI impI)
  fix i j
  assume i: "i < length (map GetKey (m_heap c))" and j: "j < length (map GetKey (m_heap c))"
    and ne: "i \<noteq> j"
  show "map GetKey (m_heap c) ! i \<noteq> map GetKey (m_heap c) ! j"
  proof
    assume "map GetKey (m_heap c) ! i = map GetKey (m_heap c) ! j"
    then have "GetKey (m_heap c ! i) = GetKey (m_heap c ! j)" using i j by simp
    moreover have "Find slot_of c (GetKey (m_heap c ! i)) = Some i"
      and "Find slot_of c (GetKey (m_heap c ! j)) = Some j"
      using assms i j by (simp_all add: cache_inv_iff)
    ultimately show False using ne by simp
  qed
qed

lemma step_keeps_completed:
  assumes "h < length (m_heap c)" and "m_cost (m_heap c ! h) \<noteq> - 1"
  shows "h < length (m_heap (session_step slot_of pos0 c op))
         \<and> m_heap (session_step slot_of pos0 c op) ! h = m_heap c ! h"
proof (cases op)
  case (OpFindOrInsert key)
  obtain ext where "m_heap (snd (find_or_insert slot_of pos0 c key)) = m_heap c @ ext"
    using find_or_insert_heap by blast
  then show ?thesis using assms(1) OpFindOrInsert by (simp add: nth_append)
next
  case (OpResolve key r)
  let ?c1 = "snd (find_or_insert slot_of pos0 c key)"
  let ?h1 = "fst (find_or_insert slot_of pos0 c key)"
  obtain ext where ext: "m_heap ?c1 = m_heap c @ ext"
    using find_or_insert_heap by blast
  have same: "m_heap ?c1 ! h = m_heap c ! h" and len: "h < length (m_heap ?c1)"
    using assms(1) by (simp_all add: ext nth_append)
  show ?thesis
    using resolve_cases [of slot_of pos0 c key r]
  proof
    assume "snd (resolve slot_of pos0 c key r) = ?c1"
    then show ?thesis using same len OpResolve by simp
  next
    assume upd: "m_cost (m_heap ?c1 ! ?h1) = - 1
      \<and> snd (resolve slot_of pos0 c key r) =
          ?c1\<lparr>m_heap := (m_heap ?c1)[?h1 := fill_in r (m_heap ?c1 ! ?h1)]\<rparr>"
    then have "?h1 \<noteq> h" using same assms(2) by auto
    then show ?thesis using upd same len OpResolve by simp
  qed
qed

lemma run_keeps_completed:
  "h < length (m_heap c) \<Longrightarrow> m_cost (m_heap c ! h) \<noteq> - 1 \<Longrightarrow>
     h < length (m_heap (session_run slot_of pos0 c ops))
     \<and> m_heap (session_run slot_of pos0 c ops) ! h = m_heap c ! h"
  unfolding session_run_def
proof (induction ops arbitrary: c)
  case Nil
  then show ?case by simp
next
  case (Cons op ops)
  have s: "h < length (m_heap (session_step slot_of pos0 c op))
           \<and> m_heap (session_step slot_of pos0 c op) ! h = m_heap c ! h"
    using Cons.prems by (rule step_keeps_completed)
  then have "m_cost (m_heap (session_step slot_of pos0 c op) ! h) \<noteq> - 1"
    using Cons.prems(2) by simp
  with s Cons.IH [of "session_step slot_of pos0 c op"] show ?case by simp
qed

text \<open>
  C2. For every cache and every key, \<open>find_or_insert\<close> is idempotent: a second
  \<open>find_or_insert\<close> with the same key returns the same segment as the first and leaves
  the cache as the first call left it; after any further operations of the session it
  still returns that segment; the segment returned carries the key; and no two segments
  of a session that started with an empty cache have the same key.
\<close>

theorem find_or_insert_idempotent:
  "find_or_insert slot_of pos0 (snd (find_or_insert slot_of pos0 c key)) key
     = find_or_insert slot_of pos0 c key
   \<and> fst (find_or_insert slot_of pos0
             (session_run slot_of pos0 (snd (find_or_insert slot_of pos0 c key)) ops) key)
       = fst (find_or_insert slot_of pos0 c key)
   \<and> fst (find_or_insert slot_of pos0 c key) < length (m_heap (snd (find_or_insert slot_of pos0 c key)))
   \<and> GetKey (m_heap (snd (find_or_insert slot_of pos0 c key)) ! fst (find_or_insert slot_of pos0 c key))
       = key
   \<and> distinct (map GetKey (m_heap (session_run slot_of pos0 empty_cache ops)))"
proof -
  let ?c' = "snd (find_or_insert slot_of pos0 c key)"
  let ?h = "fst (find_or_insert slot_of pos0 c key)"
  have found: "Find slot_of ?c' key = Some ?h"
    by (rule Find_after_find_or_insert)
  have again: "find_or_insert slot_of pos0 ?c' key = find_or_insert slot_of pos0 c key"
    by (simp add: find_or_insert_hit [OF found])
  have "Find slot_of (session_run slot_of pos0 ?c' ops) key = Some ?h"
    using found by (rule Find_kept_by_run)
  then have later: "fst (find_or_insert slot_of pos0 (session_run slot_of pos0 ?c' ops) key) = ?h"
    by (simp add: find_or_insert_hit)
  have one: "distinct (map GetKey (m_heap (session_run slot_of pos0 empty_cache ops)))"
    by (rule cache_inv_distinct [OF cache_inv_run [OF cache_inv_empty]])
  show ?thesis
    using again later one find_or_insert_valid [of slot_of pos0 c key] by simp
qed

text \<open>
  C8. For every segment of a session whose cost is not the sentinel \<open>-1\<close>, no
  sequence of operations of the session changes its cost or any other of its fields:
  the segment stays in the cache, equal to what it was.
\<close>

theorem completed_segment_is_immutable:
  "h < length (m_heap c) \<and> m_cost (m_heap c ! h) \<noteq> - 1 \<longrightarrow>
     h < length (m_heap (session_run slot_of pos0 c ops))
     \<and> m_heap (session_run slot_of pos0 c ops) ! h = m_heap c ! h"
  using run_keeps_completed [of h c slot_of pos0 ops] by simp

theorem completed_segment_is_immutable_witness:
  "m_cost (m_heap (snd (resolve (\<lambda>_. 0) \<lparr>tile = 0, td = 0\<rparr> empty_cache \<lparr>m_value = 83\<rparr>
       \<lparr>w_last = \<lparr>tile = 9, td = 3\<rparr>, w_cost = 10, w_last_signal = \<lparr>tile = 7, td = 3\<rparr>,
         w_end_segment_reason = 1\<rparr>)) ! 0) = 10
   \<and> m_heap (session_run (\<lambda>_. 0) \<lparr>tile = 0, td = 0\<rparr>
        (snd (resolve (\<lambda>_. 0) \<lparr>tile = 0, td = 0\<rparr> empty_cache \<lparr>m_value = 83\<rparr>
           \<lparr>w_last = \<lparr>tile = 9, td = 3\<rparr>, w_cost = 10, w_last_signal = \<lparr>tile = 7, td = 3\<rparr>,
             w_end_segment_reason = 1\<rparr>))
        [OpResolve \<lparr>m_value = 83\<rparr>
           \<lparr>w_last = \<lparr>tile = 2, td = 1\<rparr>, w_cost = 20, w_last_signal = \<lparr>tile = 2, td = 1\<rparr>,
             w_end_segment_reason = 2\<rparr>,
         OpFindOrInsert \<lparr>m_value = 99\<rparr>]) ! 0
     = \<lparr>m_key = \<lparr>m_value = 83\<rparr>, m_last = \<lparr>tile = 9, td = 3\<rparr>, m_cost = 10,
        m_last_signal = \<lparr>tile = 7, td = 3\<rparr>, m_end_segment_reason = 1, m_hash_next = None\<rparr>"
proof -
  let ?c0 = "snd (resolve (\<lambda>_. 0) \<lparr>tile = 0, td = 0\<rparr> empty_cache \<lparr>m_value = 83\<rparr>
       \<lparr>w_last = \<lparr>tile = 9, td = 3\<rparr>, w_cost = 10, w_last_signal = \<lparr>tile = 7, td = 3\<rparr>,
         w_end_segment_reason = 1\<rparr>)"
  have c0: "m_heap ?c0 =
    [\<lparr>m_key = \<lparr>m_value = 83\<rparr>, m_last = \<lparr>tile = 9, td = 3\<rparr>, m_cost = 10,
        m_last_signal = \<lparr>tile = 7, td = 3\<rparr>, m_end_segment_reason = 1, m_hash_next = None\<rparr>]"
    by (simp add: resolve_def find_or_insert_def Find_def empty_cache_def Let_def
        SetHashNext_def CYapfRailSegment_ctor_def fill_in_def)
  have pre: "0 < length (m_heap ?c0) \<and> m_cost (m_heap ?c0 ! 0) \<noteq> - 1"
    by (simp add: c0)
  show ?thesis
    using completed_segment_is_immutable [of 0 ?c0 "\<lambda>_. 0" "\<lparr>tile = 0, td = 0\<rparr>"
        "[OpResolve \<lparr>m_value = 83\<rparr>
           \<lparr>w_last = \<lparr>tile = 2, td = 1\<rparr>, w_cost = 20, w_last_signal = \<lparr>tile = 2, td = 1\<rparr>,
             w_end_segment_reason = 2\<rparr>,
         OpFindOrInsert \<lparr>m_value = 99\<rparr>]"] pre
    by (simp add: c0)
qed

end
